theory Spec2Isabelle
  imports Main "HOL-Library.Sublist"
begin

section \<open>JavaScript string primitives used by the diff parser\<close>

text \<open>
  Strings are lists of 8-bit characters: the model covers texts whose code units are
  below 256. Numbers read by \<open>parseInt\<close> are natural numbers (exact; the source's
  doubles lose precision above \<open>2^53\<close>).
\<close>

definition LF :: char where
  "LF = CHR 0x0A"

definition CR :: char where
  "CR = CHR 0x0D"

text \<open>\<open>s.startsWith(p)\<close>\<close>

definition startsWith :: "string \<Rightarrow> string \<Rightarrow> bool" where
  "startsWith s p = prefix p s"

text \<open>\<open>s.includes(p)\<close>\<close>

fun str_includes :: "string \<Rightarrow> string \<Rightarrow> bool" where
  "str_includes [] p = (p = [])"
| "str_includes (c # s) p = (prefix p (c # s) \<or> str_includes s p)"

text \<open>\<open>s.replace(p, r)\<close> with a string pattern: the first occurrence only.\<close>

fun replace_first :: "string \<Rightarrow> string \<Rightarrow> string \<Rightarrow> string" where
  "replace_first [] p r = (if p = [] then r else [])"
| "replace_first (c # s) p r =
     (if prefix p (c # s) then r @ drop (length p) (c # s) else c # replace_first s p r)"

text \<open>\<open>s.split('\n')\<close>: always at least one piece.\<close>

fun split_lines :: "string \<Rightarrow> string list" where
  "split_lines [] = [[]]"
| "split_lines (c # s) =
     (if c = LF then [] # split_lines s
      else (case split_lines s of [] \<Rightarrow> [[c]] | l # ls \<Rightarrow> (c # l) # ls))"

text \<open>\<open>xs.join('\n')\<close>\<close>

fun join_lines :: "string list \<Rightarrow> string" where
  "join_lines [] = []"
| "join_lines [l] = l"
| "join_lines (l # m # ls) = l @ [LF] @ join_lines (m # ls)"

text \<open>\<open>s.trim()\<close>: white space and line terminators below 256.\<close>

definition is_space :: "char \<Rightarrow> bool" where
  "is_space c = (c \<in> set [CHR 0x09, CHR 0x0A, CHR 0x0B, CHR 0x0C, CHR 0x0D, CHR 0x20, CHR 0xA0])"

definition trim :: "string \<Rightarrow> string" where
  "trim s = rev (dropWhile is_space (rev (dropWhile is_space s)))"

text \<open>The class \<open>\d\<close> and \<open>parseInt(ds, 10)\<close> on a string of digits.\<close>

definition is_digit :: "char \<Rightarrow> bool" where
  "is_digit c = (c \<in> set ''0123456789'')"

definition parseInt10 :: "string \<Rightarrow> nat" where
  "parseInt10 ds = foldl (\<lambda>n c. 10 * n + (of_char c - 48)) 0 ds"

text \<open>The regular-expression dot matches every character but a line terminator.\<close>

definition dot_char :: "char \<Rightarrow> bool" where
  "dot_char c = (c \<noteq> LF \<and> c \<noteq> CR)"

text \<open>A literal piece of a regular expression at the head of the subject.\<close>

definition expect :: "string \<Rightarrow> string \<Rightarrow> string option" where
  "expect p s = (if prefix p s then Some (drop (length p) s) else None)"

text \<open>
  \<open>(\d+)\<close>, greedy. Giving a digit back can never help the expressions below: what
  follows \<open>\d+\<close> in them starts with a comma or a space, and the character after a
  shorter run is a digit.
\<close>

definition digits1 :: "string \<Rightarrow> (string \<times> string) option" where
  "digits1 s =
     (let d = takeWhile is_digit s
      in if d = [] then None else Some (d, dropWhile is_digit s))"

text \<open>
  \<open>(?:,(\d+))?\<close> followed by the continuation \<open>k\<close>: the group is tried first, and
  skipped when the continuation fails after it.
\<close>

definition optional_count ::
  "string \<Rightarrow> (string option \<Rightarrow> string \<Rightarrow> 'a option) \<Rightarrow> 'a option" where
  "optional_count s k =
     (case expect '','' s of
        None \<Rightarrow> k None s
      | Some t \<Rightarrow>
          (case digits1 t of
             None \<Rightarrow> k None s
           | Some (d, u) \<Rightarrow> (case k (Some d) u of Some r \<Rightarrow> Some r | None \<Rightarrow> k None s)))"

text \<open>An unanchored search: the leftmost position at which the matcher succeeds.\<close>

fun regex_search :: "(string \<Rightarrow> 'a option) \<Rightarrow> string \<Rightarrow> 'a option" where
  "regex_search m [] = m []"
| "regex_search m (c # s) =
     (case m (c # s) of Some r \<Rightarrow> Some r | None \<Rightarrow> regex_search m s)"

section \<open>Data model\<close>

text \<open>
  The typedefs \<open>DiffHunk\<close> and \<open>FileDiff\<close>. The field \<open>lines\<close> of a hunk and the field
  \<open>hunks\<close> of a file are arrays: their type is a parameter, the array itself where values
  stand for objects (\<open>Hunk\<close>, \<open>FileDiff\<close>) and an address where objects live in a store.
\<close>

record 'l Hunk_obj =
  hunk_file :: string
  oldStart :: nat
  oldCount :: nat
  newStart :: nat
  newCount :: nat
  lines :: 'l
  content :: string
  hunk_additions :: nat
  hunk_deletions :: nat
  hunk_context :: string

type_synonym Hunk = "string list Hunk_obj"

record 'h FileDiff_obj =
  path :: string
  oldPath :: string
  newPath :: string
  status :: string
  hunks :: 'h
  rawDiff :: string
  additions :: nat
  deletions :: nat
  binary :: bool
  index :: "string option"

type_synonym FileDiff = "Hunk list FileDiff_obj"

datatype error =
  Invalid_hunk_header nat string
| SyntaxError string
| Unmodelled_regex string
| Ill_typed_store

text \<open>The values \<open>parseDiff\<close> may be called with.\<close>

datatype js_value = JUndefined | JNull | JBool bool | JNumber int | JString string

section \<open>parseHunkHeader\<close>

text \<open>
  The expression \<open>/@@ -(\d+)(?:,(\d+))? \+(\d+)(?:,(\d+))? @@(.*)/\<close> at one position:
  the four number groups and the text captured by \<open>(.*)\<close>.
\<close>

definition hunk_header_at ::
  "string \<Rightarrow> (string \<times> string option \<times> string \<times> string option \<times> string) option" where
  "hunk_header_at s =
     (case expect ''@@ -'' s of
        None \<Rightarrow> None
      | Some s1 \<Rightarrow>
          (case digits1 s1 of
             None \<Rightarrow> None
           | Some (m1, s2) \<Rightarrow>
               optional_count s2 (\<lambda>m2 s3.
                 (case expect '' +'' s3 of
                    None \<Rightarrow> None
                  | Some s4 \<Rightarrow>
                      (case digits1 s4 of
                         None \<Rightarrow> None
                       | Some (m3, s5) \<Rightarrow>
                           optional_count s5 (\<lambda>m4 s6.
                             (case expect '' @@'' s6 of
                                None \<Rightarrow> None
                              | Some s7 \<Rightarrow>
                                  Some (m1, m2, m3, m4, takeWhile dot_char s7))))))))"

definition parseHunkHeader :: "string \<Rightarrow> nat \<Rightarrow> error + Hunk" where
  "parseHunkHeader hunkLine lineNumber =
     (case regex_search hunk_header_at hunkLine of
        None \<Rightarrow> Inl (Invalid_hunk_header lineNumber hunkLine)
      | Some (m1, m2, m3, m4, m5) \<Rightarrow>
          Inr \<lparr> hunk_file = [],
                oldStart = parseInt10 m1,
                oldCount = (case m2 of Some d \<Rightarrow> parseInt10 d | None \<Rightarrow> 1),
                newStart = parseInt10 m3,
                newCount = (case m4 of Some d \<Rightarrow> parseInt10 d | None \<Rightarrow> 1),
                lines = [],
                content = hunkLine @ [LF],
                hunk_additions = 0,
                hunk_deletions = 0,
                hunk_context = trim m5 \<rparr>)"

section \<open>createNewFileDiff\<close>

text \<open>
  \<open>(.+) b\/(.+)\<close> on a run of characters without line terminator: the first group is
  greedy, so the split is at the last \<open>" b/"\<close> that leaves both groups non-empty.
  \<open>acc\<close> is the part of the run already given to the first group.
\<close>

fun path_pair :: "string \<Rightarrow> string \<Rightarrow> (string \<times> string) option" where
  "path_pair acc [] = None"
| "path_pair acc (c # s) =
     (case path_pair (acc @ [c]) s of
        Some r \<Rightarrow> Some r
      | None \<Rightarrow>
          (if acc \<noteq> [] \<and> prefix '' b/'' (c # s) \<and> drop 3 (c # s) \<noteq> []
           then Some (acc, drop 3 (c # s)) else None))"

text \<open>The expression \<open>/diff --git a\/(.+) b\/(.+)/\<close> at one position.\<close>

definition file_header_at :: "string \<Rightarrow> (string \<times> string) option" where
  "file_header_at s =
     (case expect ''diff --git a/'' s of
        None \<Rightarrow> None
      | Some r \<Rightarrow> path_pair [] (takeWhile dot_char r))"

definition createNewFileDiff :: "string \<Rightarrow> FileDiff" where
  "createNewFileDiff diffLine =
     (let m = regex_search file_header_at diffLine;
          old = (case m of Some (a, b) \<Rightarrow> a | None \<Rightarrow> []);
          new = (case m of Some (a, b) \<Rightarrow> b | None \<Rightarrow> [])
      in \<lparr> path = (if new \<noteq> [] then new else old),
            oldPath = old,
            newPath = new,
            status = ''modified'',
            hunks = [],
            rawDiff = diffLine @ [LF],
            additions = 0,
            deletions = 0,
            binary = False,
            index = None \<rparr>)"

section \<open>parseDiff\<close>

text \<open>
  The variables of the scan: the files already closed, the file and the hunk being
  built, and the flag \<open>inHunk\<close>. A hunk or file object is no longer written to once it
  has been pushed, so values stand for the objects.
\<close>

record scan =
  fileDiffs :: "FileDiff list"
  currentFile :: "FileDiff option"
  currentHunk :: "Hunk option"
  inHunk :: bool

definition initial_scan :: scan where
  "initial_scan = \<lparr> fileDiffs = [], currentFile = None, currentHunk = None, inHunk = False \<rparr>"

text \<open>A line counted as an addition, and one counted as a deletion.\<close>

definition is_addition :: "string \<Rightarrow> bool" where
  "is_addition line = (startsWith line ''+'' \<and> \<not> startsWith line ''+++'')"

definition is_deletion :: "string \<Rightarrow> bool" where
  "is_deletion line = (startsWith line ''-'' \<and> \<not> startsWith line ''---'')"

text \<open>The body of the loop for line \<open>i\<close>; \<open>Inl\<close> is the exception thrown.\<close>

definition scan_line :: "nat \<Rightarrow> string \<Rightarrow> scan \<Rightarrow> error + scan" where
  "scan_line i line st =
    (if startsWith line ''diff --git'' then
       Inr (st \<lparr> fileDiffs := (case currentFile st of
                                  Some f \<Rightarrow> fileDiffs st @ [f]
                                | None \<Rightarrow> fileDiffs st),
                  currentFile := Some (createNewFileDiff line),
                  inHunk := False \<rparr>)
     else if startsWith line ''index '' then
       Inr (st \<lparr> currentFile := map_option (\<lambda>f. f \<lparr> index := Some line \<rparr>) (currentFile st) \<rparr>)
     else if startsWith line ''Binary files'' then
       Inr (st \<lparr> currentFile :=
                    map_option (\<lambda>f. f \<lparr> binary := True, status := ''binary'' \<rparr>) (currentFile st) \<rparr>)
     else if startsWith line ''new file mode'' \<or> startsWith line ''deleted file mode'' then
       Inr (st \<lparr> currentFile :=
                    map_option (\<lambda>f. if str_includes line ''new file'' then f \<lparr> status := ''added'' \<rparr>
                                     else if str_includes line ''deleted file'' then f \<lparr> status := ''deleted'' \<rparr>
                                     else f) (currentFile st) \<rparr>)
     else if startsWith line ''rename from'' \<or> startsWith line ''rename to'' then
       Inr (st \<lparr> currentFile :=
                    map_option (\<lambda>f. if startsWith line ''rename from''
                                     then f \<lparr> status := ''renamed'',
                                             oldPath := replace_first line ''rename from '' [] \<rparr>
                                     else if startsWith line ''rename to''
                                     then f \<lparr> status := ''renamed'',
                                             newPath := replace_first line ''rename to '' [] \<rparr>
                                     else f \<lparr> status := ''renamed'' \<rparr>) (currentFile st) \<rparr>)
     else if startsWith line ''@@'' then
       (case currentFile st of
          None \<Rightarrow> Inr st
        | Some f \<Rightarrow>
            (let f' = (case currentHunk st of
                         Some h \<Rightarrow> f \<lparr> hunks := hunks f @ [h] \<rparr>
                       | None \<Rightarrow> f)
             in case parseHunkHeader line i of
                  Inl e \<Rightarrow> Inl e
                | Inr h' \<Rightarrow>
                    Inr (st \<lparr> currentFile := Some f', currentHunk := Some h', inHunk := True \<rparr>)))
     else
       (case (inHunk st, currentHunk st, currentFile st) of
          (True, Some h, Some f) \<Rightarrow>
            (let h1 = h \<lparr> lines := lines h @ [line], content := content h @ line @ [LF] \<rparr>
             in if is_addition line then
                  Inr (st \<lparr> currentFile := Some (f \<lparr> additions := additions f + 1 \<rparr>),
                             currentHunk := Some (h1 \<lparr> hunk_additions := hunk_additions h1 + 1 \<rparr>) \<rparr>)
                else if is_deletion line then
                  Inr (st \<lparr> currentFile := Some (f \<lparr> deletions := deletions f + 1 \<rparr>),
                             currentHunk := Some (h1 \<lparr> hunk_deletions := hunk_deletions h1 + 1 \<rparr>) \<rparr>)
                else Inr (st \<lparr> currentHunk := Some h1 \<rparr>))
        | _ \<Rightarrow> Inr st))"

text \<open>The loop over the lines, from index \<open>i\<close>.\<close>

fun scan_lines :: "nat \<Rightarrow> string list \<Rightarrow> scan \<Rightarrow> error + scan" where
  "scan_lines i [] st = Inr st"
| "scan_lines i (line # rest) st =
     (case scan_line i line st of
        Inl e \<Rightarrow> Inl e
      | Inr st' \<Rightarrow> scan_lines (Suc i) rest st')"

text \<open>After the loop: the last hunk goes to the last file, the last file to the result.\<close>

definition finish :: "scan \<Rightarrow> FileDiff list" where
  "finish st =
     (case currentFile st of
        None \<Rightarrow> fileDiffs st
      | Some f \<Rightarrow>
          (case currentHunk st of
             Some h \<Rightarrow> fileDiffs st @ [f \<lparr> hunks := hunks f @ [h] \<rparr>]
           | None \<Rightarrow> fileDiffs st @ [f]))"

definition parseDiff :: "js_value \<Rightarrow> error + FileDiff list" where
  "parseDiff diffContent =
     (case diffContent of
        JString s \<Rightarrow>
          (if s = [] then Inr []
           else (case scan_lines 0 (split_lines s) initial_scan of
                   Inl e \<Rightarrow> Inl e
                 | Inr st \<Rightarrow> Inr (finish st)))
      | _ \<Rightarrow> Inr [])"

section \<open>Regular expressions built from exclude patterns\<close>

text \<open>
  \<open>pattern.replace(/\*\*/g, '.*')\<close> and \<open>pattern.replace(/\*/g, '[^/]*')\<close>: every
  occurrence, left to right, without overlap.
\<close>

fun replace_double_star :: "string \<Rightarrow> string" where
  "replace_double_star [] = []"
| "replace_double_star [c] = [c]"
| "replace_double_star (c # d # s) =
     (if c = CHR ''*'' \<and> d = CHR ''*'' then ''.*'' @ replace_double_star s
      else c # replace_double_star (d # s))"

definition replace_star :: "string \<Rightarrow> string" where
  "replace_star s = concat (map (\<lambda>c. if c = CHR ''*'' then ''[^/]*'' else [c]) s)"

text \<open>
  \<open>matchesPattern\<close> hands the rewritten pattern to the platform's \<open>RegExp\<close>. The
  constructor is the parameter \<open>rnew\<close> (\<open>Inl\<close> when it throws), the method \<open>test\<close> the
  parameter \<open>rtest\<close>.
\<close>

definition matchesPattern ::
  "(string \<Rightarrow> error + 'r) \<Rightarrow> ('r \<Rightarrow> string \<Rightarrow> bool) \<Rightarrow> string \<Rightarrow> string \<Rightarrow> error + bool" where
  "matchesPattern rnew rtest filePath pattern =
     (if str_includes pattern ''**'' then
        (case rnew (replace_star (replace_double_star pattern)) of
           Inl e \<Rightarrow> Inl e
         | Inr regex \<Rightarrow> Inr (rtest regex filePath))
      else if str_includes pattern ''*'' then
        (case rnew (replace_star pattern) of
           Inl e \<Rightarrow> Inl e
         | Inr regex \<Rightarrow> Inr (rtest regex filePath))
      else Inr (filePath = pattern \<or> startsWith filePath (pattern @ ''/'')))"

text \<open>\<open>excludePatterns.some(...)\<close>: in order, stopping at the first match or exception.\<close>

fun some_pattern ::
  "(string \<Rightarrow> error + 'r) \<Rightarrow> ('r \<Rightarrow> string \<Rightarrow> bool) \<Rightarrow> string \<Rightarrow> string list \<Rightarrow> error + bool" where
  "some_pattern rnew rtest filePath [] = Inr False"
| "some_pattern rnew rtest filePath (pattern # rest) =
     (case matchesPattern rnew rtest filePath pattern of
        Inl e \<Rightarrow> Inl e
      | Inr True \<Rightarrow> Inr True
      | Inr False \<Rightarrow> some_pattern rnew rtest filePath rest)"

text \<open>\<open>fileDiffs.filter(...)\<close>: in order, stopping at the first exception.\<close>

fun filter_excluded ::
  "(string \<Rightarrow> error + 'r) \<Rightarrow> ('r \<Rightarrow> string \<Rightarrow> bool) \<Rightarrow> string list \<Rightarrow> FileDiff list
     \<Rightarrow> error + FileDiff list" where
  "filter_excluded rnew rtest patterns [] = Inr []"
| "filter_excluded rnew rtest patterns (fileDiff # rest) =
     (case some_pattern rnew rtest (path fileDiff) patterns of
        Inl e \<Rightarrow> Inl e
      | Inr excluded \<Rightarrow>
          (case filter_excluded rnew rtest patterns rest of
             Inl e \<Rightarrow> Inl e
           | Inr kept \<Rightarrow> Inr (if excluded then kept else fileDiff # kept)))"

text \<open>\<open>excludePatterns\<close> is \<open>None\<close> when the caller passes \<open>null\<close> or nothing.\<close>

definition filterFiles ::
  "(string \<Rightarrow> error + 'r) \<Rightarrow> ('r \<Rightarrow> string \<Rightarrow> bool) \<Rightarrow> FileDiff list \<Rightarrow> string list option
     \<Rightarrow> error + FileDiff list" where
  "filterFiles rnew rtest files excludePatterns =
     (case excludePatterns of
        None \<Rightarrow> Inr files
      | Some patterns \<Rightarrow>
          (if length patterns = 0 then Inr files
           else filter_excluded rnew rtest patterns files))"

subsection \<open>The platform's RegExp on the expressions that globs produce\<close>

text \<open>
  A model of \<open>new RegExp(source)\<close> and \<open>regex.test(subject)\<close> for expressions made of
  literal characters, the dot, character classes of plain members and the star. Any
  other syntax is reported as \<open>Unmodelled_regex\<close>: nothing is claimed about it.
\<close>

datatype rx_atom = Lit char | Dot | Class bool "char list"

datatype rx_item = Once rx_atom | Star rx_atom

datatype rx_mode = Start | Pending rx_atom | Class_open | In_class bool "char list"

datatype rx_error = Unterminated_class | Nothing_to_repeat | Unmodelled

definition rx_cons :: "rx_item \<Rightarrow> rx_error + rx_item list \<Rightarrow> rx_error + rx_item list" where
  "rx_cons x r = (case r of Inl e \<Rightarrow> Inl e | Inr xs \<Rightarrow> Inr (x # xs))"

text \<open>The character \<open>c\<close> where an atom starts, and inside a class with members \<open>ms\<close>.\<close>

definition rx_start :: "char \<Rightarrow> rx_error + rx_mode" where
  "rx_start c =
     (if c = CHR ''['' then Inr Class_open
      else if c = CHR ''*'' then Inl Nothing_to_repeat
      else if c = CHR ''.'' then Inr (Pending Dot)
      else if c = CHR 0x5C \<or> c \<in> set ''^$+?(){}|]'' then Inl Unmodelled
      else Inr (Pending (Lit c)))"

definition rx_member :: "bool \<Rightarrow> char list \<Rightarrow> char \<Rightarrow> rx_error + rx_mode" where
  "rx_member neg ms c =
     (if c = CHR '']'' then Inr (Pending (Class neg ms))
      else if c = CHR 0x5C \<or> c = CHR ''-'' then Inl Unmodelled
      else Inr (In_class neg (ms @ [c])))"

fun rx_parse :: "rx_mode \<Rightarrow> string \<Rightarrow> rx_error + rx_item list" where
  "rx_parse Start [] = Inr []"
| "rx_parse (Pending a) [] = Inr [Once a]"
| "rx_parse Class_open [] = Inl Unterminated_class"
| "rx_parse (In_class neg ms) [] = Inl Unterminated_class"
| "rx_parse Start (c # s) =
     (case rx_start c of Inl e \<Rightarrow> Inl e | Inr m \<Rightarrow> rx_parse m s)"
| "rx_parse (Pending a) (c # s) =
     (if c = CHR ''*'' then rx_cons (Star a) (rx_parse Start s)
      else rx_cons (Once a) (case rx_start c of Inl e \<Rightarrow> Inl e | Inr m \<Rightarrow> rx_parse m s))"
| "rx_parse Class_open (c # s) =
     (if c = CHR ''^'' then rx_parse (In_class True []) s
      else (case rx_member False [] c of Inl e \<Rightarrow> Inl e | Inr m \<Rightarrow> rx_parse m s))"
| "rx_parse (In_class neg ms) (c # s) =
     (case rx_member neg ms c of Inl e \<Rightarrow> Inl e | Inr m \<Rightarrow> rx_parse m s)"

text \<open>\<open>new RegExp(source)\<close>\<close>

definition RegExp_new :: "string \<Rightarrow> error + rx_item list" where
  "RegExp_new source =
     (case rx_parse Start source of
        Inl Unmodelled \<Rightarrow> Inl (Unmodelled_regex source)
      | Inl _ \<Rightarrow> Inl (SyntaxError source)
      | Inr regex \<Rightarrow> Inr regex)"

fun atom_matches :: "rx_atom \<Rightarrow> char \<Rightarrow> bool" where
  "atom_matches (Lit d) c = (c = d)"
| "atom_matches Dot c = dot_char c"
| "atom_matches (Class neg ms) c = ((c \<in> set ms) \<noteq> neg)"

text \<open>Whether the expression matches some prefix of the subject (with backtracking).\<close>

fun match_here :: "rx_item list \<Rightarrow> string \<Rightarrow> bool" where
  "match_here [] s = True"
| "match_here (Once a # r) [] = False"
| "match_here (Once a # r) (c # s) = (atom_matches a c \<and> match_here r s)"
| "match_here (Star a # r) [] = match_here r []"
| "match_here (Star a # r) (c # s) =
     ((atom_matches a c \<and> match_here (Star a # r) s) \<or> match_here r (c # s))"

text \<open>\<open>regex.test(subject)\<close>: a match starting at any position of the subject.\<close>

fun RegExp_test :: "rx_item list \<Rightarrow> string \<Rightarrow> bool" where
  "RegExp_test regex [] = match_here regex []"
| "RegExp_test regex (c # s) = (match_here regex (c # s) \<or> RegExp_test regex s)"

section \<open>limitFiles\<close>

text \<open>\<open>xs.slice(start, end)\<close> with integer arguments.\<close>

definition slice :: "'a list \<Rightarrow> int \<Rightarrow> int \<Rightarrow> 'a list" where
  "slice xs start end' =
     (let len = int (length xs);
          k = (if start < 0 then max (len + start) 0 else min start len);
          final = (if end' < 0 then max (len + end') 0 else min end' len)
      in take (nat (final - k)) (drop (nat k) xs))"

text \<open>\<open>maxFiles\<close> is \<open>None\<close> when the caller passes nothing: the default is 20.\<close>

definition limitFiles :: "FileDiff list \<Rightarrow> int option \<Rightarrow> FileDiff list" where
  "limitFiles files maxFiles_arg =
     (let maxFiles = (case maxFiles_arg of None \<Rightarrow> 20 | Some m \<Rightarrow> m)
      in if maxFiles = 0 \<or> maxFiles \<le> 0 then files
         else slice files 0 maxFiles)"

section \<open>extractHunksWithContext\<close>

text \<open>
  \<open>fileDiff\<close> is \<open>None\<close> for \<open>null\<close> or \<open>undefined\<close>; \<open>contextLines\<close> is \<open>None\<close> when
  the caller passes nothing: the default is 60.
\<close>

definition hunk_view :: "int \<Rightarrow> Hunk \<Rightarrow> Hunk" where
  "hunk_view contextLines hunk =
     (let ls = lines hunk;
          contextStart = max 0 (0 - contextLines);
          contextEnd = min (int (length ls)) (int (length ls) + contextLines)
      in hunk \<lparr> lines := slice ls contextStart contextEnd,
                content := join_lines (slice ls contextStart contextEnd) \<rparr>)"

definition extractHunksWithContext :: "FileDiff option \<Rightarrow> int option \<Rightarrow> Hunk list" where
  "extractHunksWithContext fileDiff contextLines_arg =
     (let contextLines = (case contextLines_arg of None \<Rightarrow> 60 | Some c \<Rightarrow> c)
      in case fileDiff of
           None \<Rightarrow> []
         | Some fd \<Rightarrow> map (hunk_view contextLines) (hunks fd))"

section \<open>extractChangedLines\<close>

record ChangedLine =
  type :: string
  line :: string
  lineNumber :: nat
  hunkIndex :: nat

text \<open>\<open>hunk.lines.forEach((line, index) => ...)\<close> from index \<open>i\<close> on.\<close>

fun forEach_line :: "Hunk \<Rightarrow> nat \<Rightarrow> string list \<Rightarrow> ChangedLine list" where
  "forEach_line hunk i [] = []"
| "forEach_line hunk i (l # rest) =
     (if is_addition l then
        [\<lparr> type = ''addition'', line = drop 1 l,
            lineNumber = newStart hunk + i, hunkIndex = i \<rparr>]
      else if is_deletion l then
        [\<lparr> type = ''deletion'', line = drop 1 l,
            lineNumber = oldStart hunk + i, hunkIndex = i \<rparr>]
      else []) @ forEach_line hunk (Suc i) rest"

definition extractChangedLines :: "Hunk \<Rightarrow> ChangedLine list" where
  "extractChangedLines hunk = forEach_line hunk 0 (lines hunk)"

section \<open>extractHunksWithContext on a store of objects\<close>

text \<open>
  To say what a call leaves unchanged, objects and arrays live in a store: a list of
  cells, the address of a cell being its position. Creating an object or an array
  appends a cell. A reference that does not lead to a cell of the kind the typedefs
  promise is outside the model and is reported as \<open>Ill_typed_store\<close>.
\<close>

datatype cell =
  Lines_cell "string list"
| Hunks_cell "nat list"
| Hunk_cell "nat Hunk_obj"
| FileDiff_cell "nat FileDiff_obj"

type_synonym store = "cell list"

definition alloc :: "store \<Rightarrow> cell \<Rightarrow> store \<times> nat" where
  "alloc h c = (h @ [c], length h)"

definition lookup :: "store \<Rightarrow> nat \<Rightarrow> cell option" where
  "lookup h a = (if a < length h then Some (h ! a) else None)"

definition assign :: "store \<Rightarrow> nat \<Rightarrow> cell \<Rightarrow> store" where
  "assign h a c = h[a := c]"

text \<open>
  The callback of \<open>map\<close> on the hunk at address \<open>r\<close>: the object literal is created with
  the fields of \<open>hunk\<close> (the spread), then \<open>lines\<close> and \<open>content\<close> are set, each from a new
  array made by \<open>slice\<close>.
\<close>

definition view_callback :: "int \<Rightarrow> store \<Rightarrow> nat \<Rightarrow> store \<times> (error + nat)" where
  "view_callback contextLines h r =
     (case lookup h r of
        Some (Hunk_cell hunk) \<Rightarrow>
          (case lookup h (lines hunk) of
             Some (Lines_cell ls) \<Rightarrow>
               (let contextStart = max 0 (0 - contextLines);
                    contextEnd = min (int (length ls)) (int (length ls) + contextLines);
                    (h1, view) = alloc h (Hunk_cell hunk);
                    (h2, a1) = alloc h1 (Lines_cell (slice ls contextStart contextEnd));
                    h3 = assign h2 view (Hunk_cell (hunk \<lparr> lines := a1 \<rparr>));
                    (h4, a2) = alloc h3 (Lines_cell (slice ls contextStart contextEnd));
                    h5 = assign h4 view
                           (Hunk_cell (hunk \<lparr> lines := a1,
                                              content := join_lines (slice ls contextStart contextEnd) \<rparr>))
                in (h5, Inr view))
           | _ \<Rightarrow> (h, Inl Ill_typed_store))
      | _ \<Rightarrow> (h, Inl Ill_typed_store))"

text \<open>\<open>map\<close> over the hunk references, writing each view into the result array \<open>res\<close>.\<close>

fun map_views :: "int \<Rightarrow> nat \<Rightarrow> nat list \<Rightarrow> store \<Rightarrow> store \<times> (error + nat)" where
  "map_views contextLines res [] h = (h, Inr res)"
| "map_views contextLines res (r # rest) h =
     (case view_callback contextLines h r of
        (h1, Inl e) \<Rightarrow> (h1, Inl e)
      | (h1, Inr view) \<Rightarrow>
          (case lookup h1 res of
             Some (Hunks_cell views) \<Rightarrow>
               map_views contextLines res rest (assign h1 res (Hunks_cell (views @ [view])))
           | _ \<Rightarrow> (h1, Inl Ill_typed_store)))"

definition extractHunksWithContext_store ::
  "store \<Rightarrow> nat option \<Rightarrow> int option \<Rightarrow> store \<times> (error + nat)" where
  "extractHunksWithContext_store h fileDiff contextLines_arg =
     (let contextLines = (case contextLines_arg of None \<Rightarrow> 60 | Some c \<Rightarrow> c)
      in case fileDiff of
           None \<Rightarrow> (let (h1, res) = alloc h (Hunks_cell []) in (h1, Inr res))
         | Some a \<Rightarrow>
             (case lookup h a of
                Some (FileDiff_cell fd) \<Rightarrow>
                  (case lookup h (hunks fd) of
                     Some (Hunks_cell refs) \<Rightarrow>
                       (let (h1, res) = alloc h (Hunks_cell [])
                        in map_views contextLines res refs h1)
                   | _ \<Rightarrow> (h, Inl Ill_typed_store))
              | _ \<Rightarrow> (h, Inl Ill_typed_store)))"

text \<open>Reading an object, with everything it refers to, out of the store.\<close>

definition hunk_value :: "'a Hunk_obj \<Rightarrow> 'b \<Rightarrow> 'b Hunk_obj" where
  "hunk_value hunk ls =
     \<lparr> hunk_file = hunk_file hunk, oldStart = oldStart hunk, oldCount = oldCount hunk,
       newStart = newStart hunk, newCount = newCount hunk, lines = ls,
       content = content hunk, hunk_additions = hunk_additions hunk,
       hunk_deletions = hunk_deletions hunk, hunk_context = hunk_context hunk \<rparr>"

definition fileDiff_value :: "'a FileDiff_obj \<Rightarrow> 'b \<Rightarrow> 'b FileDiff_obj" where
  "fileDiff_value fd hs =
     \<lparr> path = path fd, oldPath = oldPath fd, newPath = newPath fd, status = status fd,
       hunks = hs, rawDiff = rawDiff fd, additions = additions fd,
       deletions = deletions fd, binary = binary fd, index = index fd \<rparr>"

definition hunk_at :: "store \<Rightarrow> nat \<Rightarrow> Hunk option" where
  "hunk_at h r =
     (case lookup h r of
        Some (Hunk_cell hunk) \<Rightarrow>
          (case lookup h (lines hunk) of
             Some (Lines_cell ls) \<Rightarrow> Some (hunk_value hunk ls)
           | _ \<Rightarrow> None)
      | _ \<Rightarrow> None)"

fun hunks_of_refs :: "store \<Rightarrow> nat list \<Rightarrow> Hunk list option" where
  "hunks_of_refs h [] = Some []"
| "hunks_of_refs h (r # rest) =
     (case hunk_at h r of
        None \<Rightarrow> None
      | Some v \<Rightarrow> (case hunks_of_refs h rest of None \<Rightarrow> None | Some vs \<Rightarrow> Some (v # vs)))"

definition hunks_at :: "store \<Rightarrow> nat \<Rightarrow> Hunk list option" where
  "hunks_at h a =
     (case lookup h a of
        Some (Hunks_cell refs) \<Rightarrow> hunks_of_refs h refs
      | _ \<Rightarrow> None)"

definition fileDiff_at :: "store \<Rightarrow> nat \<Rightarrow> FileDiff option" where
  "fileDiff_at h a =
     (case lookup h a of
        Some (FileDiff_cell fd) \<Rightarrow>
          (case hunks_at h (hunks fd) of
             Some hs \<Rightarrow> Some (fileDiff_value fd hs)
           | None \<Rightarrow> None)
      | _ \<Rightarrow> None)"

section \<open>Notions the properties are stated with\<close>

text \<open>A file-start marker line, and a hunk-boundary line the header expression rejects.\<close>

definition file_start :: "string \<Rightarrow> bool" where
  "file_start l = startsWith l ''diff --git''"

definition malformed_hunk_header :: "string \<Rightarrow> bool" where
  "malformed_hunk_header l = (startsWith l ''@@'' \<and> regex_search hunk_header_at l = None)"

text \<open>
  The expression matching a whole string, from its first to its last character: what
  \<open>test\<close> would decide were the expression anchored at both ends.
\<close>

fun match_all :: "rx_item list \<Rightarrow> string \<Rightarrow> bool" where
  "match_all [] s = (s = [])"
| "match_all (Once a # r) [] = False"
| "match_all (Once a # r) (c # s) = (atom_matches a c \<and> match_all r s)"
| "match_all (Star a # r) [] = match_all r []"
| "match_all (Star a # r) (c # s) =
     ((atom_matches a c \<and> match_all (Star a # r) s) \<or> match_all r (c # s))"

text \<open>The lines of all hunks stored in a file.\<close>

definition stored_lines :: "FileDiff \<Rightarrow> string list" where
  "stored_lines f = concat (map lines (hunks f))"

text \<open>
  The line numbers of the unified-diff format: a hunk body is read with one counter for
  the old version and one for the new version. A context line is a line of both
  versions, an addition a line of the new version only, a deletion a line of the old
  version only.
\<close>

fun resolve_lines :: "nat \<Rightarrow> nat \<Rightarrow> nat \<Rightarrow> string list \<Rightarrow> ChangedLine list" where
  "resolve_lines old new i [] = []"
| "resolve_lines old new i (l # rest) =
     (if is_addition l then
        \<lparr> type = ''addition'', line = drop 1 l, lineNumber = new, hunkIndex = i \<rparr>
          # resolve_lines old (Suc new) (Suc i) rest
      else if is_deletion l then
        \<lparr> type = ''deletion'', line = drop 1 l, lineNumber = old, hunkIndex = i \<rparr>
          # resolve_lines (Suc old) new (Suc i) rest
      else resolve_lines (Suc old) (Suc new) (Suc i) rest)"

definition spec_changed_lines :: "Hunk \<Rightarrow> ChangedLine list" where
  "spec_changed_lines hunk = resolve_lines (oldStart hunk) (newStart hunk) 0 (lines hunk)"

text \<open>A hunk whose counts agree with its lines.\<close>

definition well_formed_hunk :: "Hunk \<Rightarrow> bool" where
  "well_formed_hunk hunk =
     (length (filter (\<lambda>l. \<not> is_addition l) (lines hunk)) = oldCount hunk
      \<and> length (filter (\<lambda>l. \<not> is_deletion l) (lines hunk)) = newCount hunk)"

text \<open>A file with the given path and no hunks, as the repository's tests build them.\<close>

definition file_at :: "string \<Rightarrow> FileDiff" where
  "file_at p =
     \<lparr> path = p, oldPath = p, newPath = p, status = ''modified'', hunks = [],
       rawDiff = [], additions = 0, deletions = 0, binary = False, index = None \<rparr>"

text \<open>
  A hunk with the given header numbers and body lines, its content and counters as the
  parser would fill them from the body.
\<close>

definition hunk_of :: "nat \<Rightarrow> nat \<Rightarrow> nat \<Rightarrow> nat \<Rightarrow> string list \<Rightarrow> Hunk" where
  "hunk_of os oc ns nc ls =
     \<lparr> hunk_file = [], oldStart = os, oldCount = oc, newStart = ns, newCount = nc,
       lines = ls, content = concat (map (\<lambda>l. l @ [LF]) ls),
       hunk_additions = length (filter is_addition ls),
       hunk_deletions = length (filter is_deletion ls), hunk_context = [] \<rparr>"

section \<open>Properties of the parser on concrete diffs\<close>

text \<open>
  Claim C1. On a \<open>diff --git\<close> line the parser pushes the file being built, but not its
  open hunk, and keeps that hunk as the current one. In a diff of two files with one
  hunk each, the hunk read under the header of \<open>a.js\<close> is stored in \<open>b.js\<close>, and \<open>a.js\<close>
  has no hunk at all: the claim that every hunk is stored in the file under whose header
  it occurred, and never in a later file, fails on the code.
\<close>

theorem parseDiff_hunk_in_later_file:
  "map_sum id (map (\<lambda>f. (path f, map lines (hunks f))))
     (parseDiff (JString
        ''diff --git a/a.js b/a.js\<newline>@@ -1 +1,2 @@\<newline> x\<newline>+y\<newline>diff --git a/b.js b/b.js\<newline>@@ -1 +1 @@\<newline>-p\<newline>+q''))
   = Inr [(''a.js'', []), (''b.js'', [['' x'', ''+y''], [''-p'', ''+q'']])]"
  by code_simp

text \<open>
  Claim C2. The counter \<open>additions\<close> of a file counts the addition lines read under its
  header; the hunks stored in it may be others. For a text file followed by a binary
  file, \<open>a.js\<close> has \<open>additions = 1\<close> and no stored addition line, and \<open>b.png\<close> has
  \<open>additions = 0\<close> and one stored addition line: the claimed equality of the counter and
  the stored lines fails on the code.
\<close>

theorem parseDiff_counts_disagree:
  "map_sum id (map (\<lambda>f. (path f, additions f, length (filter is_addition (stored_lines f)))))
     (parseDiff (JString
        ''diff --git a/a.js b/a.js\<newline>@@ -1 +1,2 @@\<newline> x\<newline>+y\<newline>diff --git a/b.png b/b.png\<newline>Binary files a/b.png and b/b.png differ''))
   = Inr [(''a.js'', 1, 0), (''b.png'', 0, 1)]"
  by code_simp

text \<open>
  Claim C5. A file whose content is reported as binary is to retain no hunks. For a
  text file with one hunk followed by a binary file, the hunk left open at the second
  \<open>diff --git\<close> line is pushed, at the end of the input, into the file being built
  then: \<open>img.png\<close> is returned with \<open>binary = True\<close> and the hunk of \<open>a.js\<close>.
\<close>

theorem parseDiff_binary_holds_earlier_hunk:
  "map_sum id (map (\<lambda>f. (path f, binary f, map lines (hunks f))))
     (parseDiff (JString
        ''diff --git a/a.js b/a.js\<newline>@@ -1 +1,2 @@\<newline> x\<newline>+y\<newline>diff --git a/img.png b/img.png\<newline>index 1111111..2222222 100644\<newline>Binary files a/img.png and b/img.png differ''))
   = Inr [(''a.js'', False, []), (''img.png'', True, [['' x'', ''+y'']])]"
  by code_simp

section \<open>Properties of extractHunksWithContext, extractChangedLines and limitFiles\<close>

text \<open>
  Claim C4. The window of \<open>extractHunksWithContext\<close> is computed as
  \<open>max(0, 0 - contextLines)\<close> and \<open>min(length, length + contextLines)\<close>: for a budget
  that is not negative these are \<open>0\<close> and the length, so the budget bounds nothing. A
  hunk of seven lines with a single changed line comes back with all seven lines for
  the budgets 0, 1 and 2, where the claim allows at most 0, 2 and 4.
\<close>

theorem extractHunksWithContext_ignores_budget:
  "map (\<lambda>c. map (\<lambda>h. length (lines h))
               (extractHunksWithContext
                  (Some ((file_at ''a.js'')
                     \<lparr> hunks := [hunk_of 1 6 1 7
                         ['' a'', '' b'', '' c'', ''+new'', '' d'', '' e'', '' f'']] \<rparr>))
                  (Some c)))
     [0, 1, 2]
   = [[7], [7], [7]]"
  by code_simp

text \<open>
  Claim C6. \<open>extractChangedLines\<close> numbers a changed line by adding its index in the hunk
  body to the start line. For the well-formed hunk \<open>@@ -1,3 +1,3 @@\<close> with two context
  lines, a deletion and an addition, the addition is the third line of the new version,
  as the counters of the format give it; the code reports line 4, outside the hunk's
  new range 1 to 3.
\<close>

theorem extractChangedLines_addition_number:
  "well_formed_hunk
     (hunk_of 1 3 1 3 ['' const a = 1;'', '' const b = 2;'', ''-const c = 3;'', ''+const c = 4;''])
   \<and> map (\<lambda>c. (type c, line c, lineNumber c))
        (extractChangedLines
           (hunk_of 1 3 1 3 ['' const a = 1;'', '' const b = 2;'', ''-const c = 3;'', ''+const c = 4;'']))
       = [(''deletion'', ''const c = 3;'', 3), (''addition'', ''const c = 4;'', 4)]
   \<and> map (\<lambda>c. (type c, line c, lineNumber c))
        (spec_changed_lines
           (hunk_of 1 3 1 3 ['' const a = 1;'', '' const b = 2;'', ''-const c = 3;'', ''+const c = 4;'']))
       = [(''deletion'', ''const c = 3;'', 3), (''addition'', ''const c = 4;'', 3)]
   \<and> newStart
        (hunk_of 1 3 1 3 ['' const a = 1;'', '' const b = 2;'', ''-const c = 3;'', ''+const c = 4;''])
       + newCount
        (hunk_of 1 3 1 3 ['' const a = 1;'', '' const b = 2;'', ''-const c = 3;'', ''+const c = 4;''])
       = 4"
  by code_simp

text \<open>
  Claim C8. For an integer \<open>max > 0\<close>, \<open>limitFiles\<close> returns the first \<open>max\<close> files in
  their order, \<open>min (length files) max\<close> of them; for \<open>max \<le> 0\<close> it returns the input.
\<close>

theorem limitFiles_truncation:
  "(0 < m \<longrightarrow> limitFiles files (Some m) = take (nat m) files
              \<and> length (limitFiles files (Some m)) = min (length files) (nat m))
   \<and> (m \<le> 0 \<longrightarrow> limitFiles files (Some m) = files)"
  by (auto simp: limitFiles_def slice_def Let_def min_def)

theorem limitFiles_truncation_witness:
  "(0::int) < 2 \<and> (0::int) \<le> 0
   \<and> limitFiles (map file_at [''file1.js'', ''file2.js'', ''file3.js'', ''file4.js'']) (Some 2)
       = map file_at [''file1.js'', ''file2.js'']
   \<and> limitFiles (map file_at [''file1.js'', ''file2.js'', ''file3.js'', ''file4.js'']) (Some 0)
       = map file_at [''file1.js'', ''file2.js'', ''file3.js'', ''file4.js'']"
  using limitFiles_truncation [of 2 "map file_at [''file1.js'', ''file2.js'', ''file3.js'', ''file4.js'']"]
        limitFiles_truncation [of 0 "map file_at [''file1.js'', ''file2.js'', ''file3.js'', ''file4.js'']"]
  by (simp add: numeral_2_eq_2)

section \<open>The scan, line by line\<close>

lemma boundary_not_other:
  assumes "startsWith l ''@@''"
  shows "\<not> startsWith l ''diff --git''" "\<not> startsWith l ''index ''" "\<not> startsWith l ''Binary files''"
    "\<not> startsWith l ''new file mode''" "\<not> startsWith l ''deleted file mode''"
    "\<not> startsWith l ''rename from''" "\<not> startsWith l ''rename to''"
  using assms by (auto simp: startsWith_def prefix_def)

lemma parseHunkHeader_throws:
  "regex_search hunk_header_at l = None \<Longrightarrow> parseHunkHeader l i = Inl (Invalid_hunk_header i l)"
  by (simp add: parseHunkHeader_def)

lemma parseHunkHeader_returns:
  "regex_search hunk_header_at l \<noteq> None \<Longrightarrow> \<exists>h. parseHunkHeader l i = Inr h"
  by (auto simp: parseHunkHeader_def split: option.splits)

lemma scan_line_throws:
  "malformed_hunk_header l \<Longrightarrow> currentFile st \<noteq> None \<Longrightarrow>
   scan_line i l st = Inl (Invalid_hunk_header i l)"
  by (auto simp: malformed_hunk_header_def scan_line_def boundary_not_other parseHunkHeader_throws
      split: option.splits)

lemma scan_line_outside_file:
  "currentFile st = None \<Longrightarrow> \<not> file_start l \<Longrightarrow> scan_line i l st = Inr st"
  by (auto simp: scan_line_def file_start_def split: option.splits bool.splits)

lemma scan_line_returns:
  assumes "\<not> malformed_hunk_header l"
  shows "\<exists>st'. scan_line i l st = Inr st' \<and> (currentFile st \<noteq> None \<longrightarrow> currentFile st' \<noteq> None)
              \<and> (file_start l \<longrightarrow> currentFile st' \<noteq> None)"
proof (cases "startsWith l ''@@''")
  case True
  with assms have "regex_search hunk_header_at l \<noteq> None" by (simp add: malformed_hunk_header_def)
  then obtain h where "parseHunkHeader l i = Inr h" using parseHunkHeader_returns by blast
  with True show ?thesis
    by (auto simp: scan_line_def boundary_not_other file_start_def split: option.splits)
next
  case False
  then show ?thesis
    by (auto simp: scan_line_def file_start_def Let_def split: option.splits bool.splits)
qed

lemma scan_lines_first_malformed:
  assumes "malformed_hunk_header l"
    and "currentFile st \<noteq> None \<or> (\<exists>x\<in>set pre. file_start x)"
    and "\<forall>k<length pre. malformed_hunk_header (pre ! k) \<longrightarrow>
           currentFile st = None \<and> (\<forall>j<k. \<not> file_start (pre ! j))"
  shows "scan_lines n (pre @ l # post) st = Inl (Invalid_hunk_header (n + length pre) l)"
  using assms
proof (induction pre arbitrary: st n)
  case Nil
  then show ?case by (simp add: scan_line_throws)
next
  case (Cons x pre)
  have first: "malformed_hunk_header x \<longrightarrow> currentFile st = None"
    using Cons.prems(3) by auto
  have not_start: "malformed_hunk_header x \<Longrightarrow> \<not> file_start x"
    by (auto simp: malformed_hunk_header_def file_start_def boundary_not_other)
  obtain st' where st': "scan_line n x st = Inr st'"
    and keep: "currentFile st \<noteq> None \<longrightarrow> currentFile st' \<noteq> None"
    and opened: "file_start x \<longrightarrow> currentFile st' \<noteq> None"
    and same: "malformed_hunk_header x \<longrightarrow> st' = st"
  proof (cases "malformed_hunk_header x")
    case True
    then have "scan_line n x st = Inr st" using first not_start scan_line_outside_file by blast
    with True first not_start that show ?thesis by auto
  next
    case False
    then show ?thesis using scan_line_returns [of x n st] that by auto
  qed
  have p2: "currentFile st' \<noteq> None \<or> (\<exists>y\<in>set pre. file_start y)"
    using Cons.prems(2) keep opened by auto
  have p3: "\<forall>k<length pre. malformed_hunk_header (pre ! k) \<longrightarrow>
           currentFile st' = None \<and> (\<forall>j<k. \<not> file_start (pre ! j))"
  proof (intro allI impI)
    fix k assume k: "k < length pre" and m: "malformed_hunk_header (pre ! k)"
    from Cons.prems(3) k m have a: "currentFile st = None"
      and b: "\<forall>j<Suc k. \<not> file_start ((x # pre) ! j)"
      by force+
    from b have nx: "\<not> file_start x" by force
    from b have rest: "\<forall>j<k. \<not> file_start (pre ! j)" by force
    from a nx have "scan_line n x st = Inr st" by (rule scan_line_outside_file)
    with st' a have "currentFile st' = None" by simp
    with rest show "currentFile st' = None \<and> (\<forall>j<k. \<not> file_start (pre ! j))" by simp
  qed
  have "scan_lines (Suc n) (pre @ l # post) st' = Inl (Invalid_hunk_header (Suc n + length pre) l)"
    using Cons.IH [OF Cons.prems(1) p2 p3] .
  with st' show ?case by simp
qed

lemma scan_lines_outside_file:
  "currentFile st = None \<Longrightarrow> \<forall>l\<in>set ls. \<not> file_start l \<Longrightarrow> scan_lines n ls st = Inr st"
  by (induction ls arbitrary: n) (simp_all add: scan_line_outside_file)

text \<open>
  Claim C3, amended. \<open>parseDiff\<close> returns the empty sequence for every value that is not
  a string, for the empty string, and for every text without a file-start line. It
  throws the error carrying the index of a line and the line itself whenever that line
  begins with \<open>@@\<close>, does not match the header expression, comes after a file-start
  line, and is the first such line of the text. (A header is parsed only while a file
  is being built, and the first exception ends the parse.)
\<close>

theorem parseDiff_malformed_header:
  "((\<forall>s. v \<noteq> JString s) \<longrightarrow> parseDiff v = Inr [])
   \<and> parseDiff (JString []) = Inr []
   \<and> ((\<forall>l\<in>set (split_lines s). \<not> file_start l) \<longrightarrow> parseDiff (JString s) = Inr [])
   \<and> (split_lines s = pre @ l # post \<and> malformed_hunk_header l \<and> (\<exists>x\<in>set pre. file_start x)
        \<and> (\<forall>k<length pre. malformed_hunk_header (pre ! k) \<longrightarrow> (\<forall>j<k. \<not> file_start (pre ! j)))
      \<longrightarrow> parseDiff (JString s) = Inl (Invalid_hunk_header (length pre) l))"
proof -
  have a: "(\<forall>s. v \<noteq> JString s) \<longrightarrow> parseDiff v = Inr []"
    by (cases v) (simp_all add: parseDiff_def)
  have b: "parseDiff (JString []) = Inr []"
    by (simp add: parseDiff_def)
  have c: "(\<forall>l\<in>set (split_lines s). \<not> file_start l) \<longrightarrow> parseDiff (JString s) = Inr []"
  proof
    assume "\<forall>l\<in>set (split_lines s). \<not> file_start l"
    then have "scan_lines 0 (split_lines s) initial_scan = Inr initial_scan"
      by (simp add: scan_lines_outside_file initial_scan_def)
    then show "parseDiff (JString s) = Inr []"
      by (simp add: parseDiff_def finish_def initial_scan_def)
  qed
  have d: "split_lines s = pre @ l # post \<and> malformed_hunk_header l \<and> (\<exists>x\<in>set pre. file_start x)
        \<and> (\<forall>k<length pre. malformed_hunk_header (pre ! k) \<longrightarrow> (\<forall>j<k. \<not> file_start (pre ! j)))
      \<longrightarrow> parseDiff (JString s) = Inl (Invalid_hunk_header (length pre) l)"
  proof
    assume h: "split_lines s = pre @ l # post \<and> malformed_hunk_header l \<and> (\<exists>x\<in>set pre. file_start x)
        \<and> (\<forall>k<length pre. malformed_hunk_header (pre ! k) \<longrightarrow> (\<forall>j<k. \<not> file_start (pre ! j)))"
    then have "pre \<noteq> []" by auto
    then have "2 \<le> length (pre @ l # post)" by (cases pre) simp_all
    with h have "2 \<le> length (split_lines s)" by simp
    then have "s \<noteq> []" by auto
    have "scan_lines 0 (pre @ l # post) initial_scan = Inl (Invalid_hunk_header (0 + length pre) l)"
    proof (rule scan_lines_first_malformed)
      show "malformed_hunk_header l" using h by simp
      show "currentFile initial_scan \<noteq> None \<or> (\<exists>x\<in>set pre. file_start x)" using h by simp
      show "\<forall>k<length pre. malformed_hunk_header (pre ! k) \<longrightarrow>
           currentFile initial_scan = None \<and> (\<forall>j<k. \<not> file_start (pre ! j))"
        using h by (simp add: initial_scan_def)
    qed
    with h \<open>s \<noteq> []\<close> show "parseDiff (JString s) = Inl (Invalid_hunk_header (length pre) l)"
      by (simp add: parseDiff_def)
  qed
  show ?thesis using a b c d by blast
qed

theorem parseDiff_malformed_header_witness:
  "parseDiff JNull = Inr []
   \<and> \<not> file_start ''hello'' \<and> \<not> file_start ''@@ bad''
   \<and> parseDiff (JString ''hello\<newline>@@ bad'') = Inr []
   \<and> split_lines ''diff --git a/a b/a\<newline>@@ -1 +1 @@\<newline>@@ bad\<newline>@@ worse''
       = [''diff --git a/a b/a'', ''@@ -1 +1 @@''] @ ''@@ bad'' # [''@@ worse'']
   \<and> file_start ''diff --git a/a b/a''
   \<and> \<not> malformed_hunk_header ''diff --git a/a b/a''
   \<and> \<not> malformed_hunk_header ''@@ -1 +1 @@''
   \<and> malformed_hunk_header ''@@ bad''
   \<and> parseDiff (JString ''diff --git a/a b/a\<newline>@@ -1 +1 @@\<newline>@@ bad\<newline>@@ worse'')
       = Inl (Invalid_hunk_header 2 ''@@ bad'')"
proof -
  let ?pre = "[''diff --git a/a b/a'', ''@@ -1 +1 @@'']"
  let ?s = "''diff --git a/a b/a\<newline>@@ -1 +1 @@\<newline>@@ bad\<newline>@@ worse''"
  have n: "\<forall>s. JNull \<noteq> JString s" by simp
  have nf: "\<not> file_start ''hello''" "\<not> file_start ''@@ bad''"
    by (simp_all add: file_start_def startsWith_def)
  have "split_lines ''hello\<newline>@@ bad'' = [''hello'', ''@@ bad'']"
    by (simp add: LF_def)
  with nf have l: "\<forall>l\<in>set (split_lines ''hello\<newline>@@ bad''). \<not> file_start l"
    by simp
  have sp: "split_lines ?s = ?pre @ ''@@ bad'' # [''@@ worse'']"
    by (simp add: LF_def)
  have m: "malformed_hunk_header ''@@ bad''"
    by code_simp
  have f: "file_start ''diff --git a/a b/a''"
    by (simp add: file_start_def startsWith_def)
  then have fs: "\<exists>x\<in>set ?pre. file_start x"
    by simp
  have ok: "\<not> malformed_hunk_header ''diff --git a/a b/a''" "\<not> malformed_hunk_header ''@@ -1 +1 @@''"
    by code_simp+
  have first: "\<forall>k<length ?pre. malformed_hunk_header (?pre ! k) \<longrightarrow> (\<forall>j<k. \<not> file_start (?pre ! j))"
    using ok by (simp add: less_Suc_eq_0_disj)
  note t1 = parseDiff_malformed_header [of JNull "''hello\<newline>@@ bad''" ?pre "''@@ bad''" "[''@@ worse'']"]
  note t2 = parseDiff_malformed_header [of JNull ?s ?pre "''@@ bad''" "[''@@ worse'']"]
  have a: "parseDiff JNull = Inr []"
    using t1 [THEN conjunct1] n by (rule mp)
  have c: "parseDiff (JString ''hello\<newline>@@ bad'') = Inr []"
    using t1 [THEN conjunct2, THEN conjunct2, THEN conjunct1] l by (rule mp)
  have d: "parseDiff (JString ?s) = Inl (Invalid_hunk_header (length ?pre) ''@@ bad'')"
    using t2 [THEN conjunct2, THEN conjunct2, THEN conjunct2] sp m fs first by blast
  have "length ?pre = 2" by simp
  with d have d': "parseDiff (JString ?s) = Inl (Invalid_hunk_header 2 ''@@ bad'')" by simp
  show ?thesis using a nf c sp f ok m d' by blast
qed

text \<open>
  Claim C3, as stated: a line that begins with \<open>@@\<close> and does not match the header
  expression always makes \<open>parseDiff\<close> throw. Before any file-start line it does not:
  the line is skipped.
\<close>

theorem parseDiff_unguarded_header_counterexample:
  "malformed_hunk_header ''@@ bad'' \<and> parseDiff (JString ''@@ bad'') = Inr []"
  by code_simp

section \<open>Filtering by exclude patterns\<close>

lemma double_star_includes_star: "str_includes p ''**'' \<Longrightarrow> str_includes p ''*''"
  by (induction p) auto

lemma some_pattern_total:
  "\<forall>p\<in>set ps. \<exists>b. matchesPattern rnew rtest fp p = Inr b \<Longrightarrow>
   some_pattern rnew rtest fp ps = Inr (\<exists>p\<in>set ps. matchesPattern rnew rtest fp p = Inr True)"
  by (induction ps) (auto split: sum.splits bool.splits)

lemma filter_excluded_total:
  "\<forall>f\<in>set files. \<forall>p\<in>set ps. \<exists>b. matchesPattern rnew rtest (path f) p = Inr b \<Longrightarrow>
   filter_excluded rnew rtest ps files =
     Inr (filter (\<lambda>f. \<not> (\<exists>p\<in>set ps. matchesPattern rnew rtest (path f) p = Inr True)) files)"
  by (induction files) (auto simp: some_pattern_total)

text \<open>
  Claim C7, amended. With no pattern sequence, or an empty one, \<open>filterFiles\<close> returns
  its input. Otherwise, provided the constructor \<open>RegExp\<close> throws for none of the
  patterns, it returns, in their order, exactly the files whose path matches no
  pattern. A pattern without wildcard matches a path iff the path is the pattern or
  starts with the pattern followed by \<open>/\<close>. This holds for every behaviour of the
  platform's \<open>RegExp\<close>.
\<close>

theorem filterFiles_exclusion:
  "filterFiles rnew rtest files None = Inr files
   \<and> filterFiles rnew rtest files (Some []) = Inr files
   \<and> ((\<forall>f\<in>set files. \<forall>p\<in>set ps. \<exists>b. matchesPattern rnew rtest (path f) p = Inr b) \<longrightarrow>
        filterFiles rnew rtest files (Some ps) =
          Inr (filter (\<lambda>f. \<not> (\<exists>p\<in>set ps. matchesPattern rnew rtest (path f) p = Inr True)) files))
   \<and> (\<not> str_includes q ''*'' \<longrightarrow>
        matchesPattern rnew rtest fp q = Inr (fp = q \<or> prefix (q @ ''/'') fp))"
proof -
  have "\<not> str_includes q ''*'' \<Longrightarrow> \<not> str_includes q ''**''"
    using double_star_includes_star by blast
  then have last: "\<not> str_includes q ''*'' \<longrightarrow>
        matchesPattern rnew rtest fp q = Inr (fp = q \<or> prefix (q @ ''/'') fp)"
    by (simp add: matchesPattern_def startsWith_def)
  have main: "(\<forall>f\<in>set files. \<forall>p\<in>set ps. \<exists>b. matchesPattern rnew rtest (path f) p = Inr b) \<longrightarrow>
        filterFiles rnew rtest files (Some ps) =
          Inr (filter (\<lambda>f. \<not> (\<exists>p\<in>set ps. matchesPattern rnew rtest (path f) p = Inr True)) files)"
    by (cases ps) (simp_all add: filterFiles_def filter_excluded_total del: filter_excluded.simps)
  show ?thesis using last main by (simp add: filterFiles_def)
qed

theorem filterFiles_exclusion_witness:
  "filterFiles RegExp_new RegExp_test
        (map file_at [''src/app.js'', ''dist/bundle.js'', ''node_modules/pkg/index.js'', ''test/spec.js''])
        (Some [''dist/**'', ''node_modules/**''])
       = Inr (map file_at [''src/app.js'', ''test/spec.js''])
   \<and> \<not> str_includes ''src'' ''*''
   \<and> matchesPattern RegExp_new RegExp_test ''src/app.js'' ''src'' = Inr True
   \<and> matchesPattern RegExp_new RegExp_test ''src2/app.js'' ''src'' = Inr False"
proof -
  let ?files = "map file_at [''src/app.js'', ''dist/bundle.js'', ''node_modules/pkg/index.js'', ''test/spec.js'']"
  let ?ps = "[''dist/**'', ''node_modules/**'']"
  have total: "\<forall>f\<in>set ?files. \<forall>p\<in>set ?ps. \<exists>b. matchesPattern RegExp_new RegExp_test (path f) p = Inr b"
    by code_simp
  have kept: "filter (\<lambda>f. \<not> (\<exists>p\<in>set ?ps. matchesPattern RegExp_new RegExp_test (path f) p = Inr True)) ?files
      = map file_at [''src/app.js'', ''test/spec.js'']"
    by code_simp
  have plain: "\<not> str_includes ''src'' ''*''"
    by code_simp
  note t = filterFiles_exclusion [of RegExp_new RegExp_test ?files ?ps "''src''"]
  have a: "filterFiles RegExp_new RegExp_test ?files (Some ?ps) = Inr (map file_at [''src/app.js'', ''test/spec.js''])"
    using t [of "''src/app.js''", THEN conjunct2, THEN conjunct2, THEN conjunct1] total kept by simp
  have b: "matchesPattern RegExp_new RegExp_test ''src/app.js'' ''src'' = Inr True"
    using t [of "''src/app.js''", THEN conjunct2, THEN conjunct2, THEN conjunct2] plain by simp
  have c: "matchesPattern RegExp_new RegExp_test ''src2/app.js'' ''src'' = Inr False"
    using t [of "''src2/app.js''", THEN conjunct2, THEN conjunct2, THEN conjunct2] plain by simp
  show ?thesis using a plain b c by blast
qed

text \<open>
  Claim C7, as stated: for every sequence of patterns the files matching none are
  returned. The pattern \<open>*[\<close> is rewritten to \<open>[^/]*[\<close>, whose character class is not
  closed: the constructor throws, and so does \<open>filterFiles\<close>.
\<close>

theorem filterFiles_invalid_pattern_counterexample:
  "filterFiles RegExp_new RegExp_test [file_at ''src/app.js''] (Some [''*['']) = Inl (SyntaxError ''[^/]*['')"
  by code_simp

section \<open>The match test on an expression built from a glob\<close>

lemma match_here_iff: "match_here r s \<longleftrightarrow> (\<exists>v w. s = v @ w \<and> match_all r v)"
proof (induction r s rule: match_here.induct)
  case (1 s)
  then show ?case by simp
next
  case (2 a r)
  then show ?case by simp
next
  case (3 a r c s)
  show ?case
  proof
    assume "match_here (Once a # r) (c # s)"
    then obtain v w where "atom_matches a c" "s = v @ w" "match_all r v" using 3 by auto
    then have "c # s = (c # v) @ w \<and> match_all (Once a # r) (c # v)" by simp
    then show "\<exists>v w. c # s = v @ w \<and> match_all (Once a # r) v" by blast
  next
    assume "\<exists>v w. c # s = v @ w \<and> match_all (Once a # r) v"
    then obtain v w where vw: "c # s = v @ w" "match_all (Once a # r) v" by blast
    then obtain v' where "v = c # v'" by (cases v) auto
    with vw 3 show "match_here (Once a # r) (c # s)" by auto
  qed
next
  case (4 a r)
  then show ?case by simp
next
  case (5 a r c s)
  show ?case
  proof
    assume "match_here (Star a # r) (c # s)"
    then consider "atom_matches a c" "match_here (Star a # r) s" | "match_here r (c # s)" by auto
    then show "\<exists>v w. c # s = v @ w \<and> match_all (Star a # r) v"
    proof cases
      case 1
      then obtain v w where "s = v @ w" "match_all (Star a # r) v" using 5 by auto
      with 1 have "c # s = (c # v) @ w \<and> match_all (Star a # r) (c # v)" by simp
      then show ?thesis by blast
    next
      case 2
      then obtain v w where vw: "c # s = v @ w" "match_all r v" using 5 by auto
      then have "match_all (Star a # r) v" by (cases v) auto
      with vw show ?thesis by blast
    qed
  next
    assume "\<exists>v w. c # s = v @ w \<and> match_all (Star a # r) v"
    then obtain v w where vw: "c # s = v @ w" "match_all (Star a # r) v" by blast
    show "match_here (Star a # r) (c # s)"
    proof (cases v)
      case Nil
      with vw have "match_all r []" by simp
      then have "c # s = [] @ (c # s) \<and> match_all r []" by simp
      then have "match_here r (c # s)" using 5 by blast
      then show ?thesis by simp
    next
      case (Cons d v')
      with vw have d: "d = c" "s = v' @ w" by auto
      from vw Cons d consider "atom_matches a c" "match_all (Star a # r) v'" | "match_all r (c # v')" by auto
      then show ?thesis
      proof cases
        case 1
        then have "match_here (Star a # r) s" using 5 d by blast
        with 1 show ?thesis by simp
      next
        case 2
        then have "c # s = (c # v') @ w \<and> match_all r (c # v')" using d by simp
        then have "match_here r (c # s)" using 5 by blast
        then show ?thesis by simp
      qed
    qed
  qed
qed

lemma RegExp_test_iff: "RegExp_test r s \<longleftrightarrow> (\<exists>u t. s = u @ t \<and> match_here r t)"
proof (induction s)
  case Nil
  then show ?case by simp
next
  case (Cons c s)
  show ?case
  proof
    assume "RegExp_test r (c # s)"
    then consider "match_here r (c # s)" | "RegExp_test r s" by auto
    then show "\<exists>u t. c # s = u @ t \<and> match_here r t"
    proof cases
      case 1
      then have "c # s = [] @ (c # s) \<and> match_here r (c # s)" by simp
      then show ?thesis by blast
    next
      case 2
      then obtain u t where "s = u @ t" "match_here r t" using Cons by blast
      then have "c # s = (c # u) @ t \<and> match_here r t" by simp
      then show ?thesis by blast
    qed
  next
    assume "\<exists>u t. c # s = u @ t \<and> match_here r t"
    then obtain u t where ut: "c # s = u @ t" "match_here r t" by blast
    show "RegExp_test r (c # s)"
    proof (cases u)
      case Nil
      with ut have "match_here r (c # s)" by simp
      then show ?thesis by simp
    next
      case (Cons d u')
      with ut have "s = u' @ t" by simp
      with ut have "RegExp_test r s" using Cons.IH by blast
      then show ?thesis by simp
    qed
  qed
qed

lemma RegExp_test_substring:
  "RegExp_test r s \<longleftrightarrow> (\<exists>u v w. s = u @ v @ w \<and> match_all r v)"
  unfolding RegExp_test_iff match_here_iff by blast

lemma matchesPattern_wildcard:
  assumes "str_includes p ''*''"
    and "rnew (if str_includes p ''**'' then replace_star (replace_double_star p)
               else replace_star p) = Inr r"
  shows "matchesPattern rnew rtest fp p = Inr (rtest r fp)"
  using assms by (auto simp: matchesPattern_def)

text \<open>
  Claim C10. For a pattern with a wildcard, the match test is the platform's \<open>test\<close> of
  the compiled expression on the whole path, the expression being the rewritten pattern
  and nothing else (whatever the platform's \<open>RegExp\<close> does). On the model of \<open>RegExp\<close>,
  for an expression that compiles to \<open>r\<close>, the test succeeds on a path iff \<open>r\<close> matches
  some substring of the path from end to end, and filtering by that pattern keeps
  exactly the files with no such substring. The pattern \<open>dist/**\<close> matches
  \<open>src/dist/bundle.js\<close>, and \<open>*.env\<close> matches every path containing \<open>Xenv\<close>.
\<close>

theorem matchesPattern_unanchored:
  "(str_includes p ''*''
     \<and> rnew (if str_includes p ''**'' then replace_star (replace_double_star p)
              else replace_star p) = Inr x
     \<longrightarrow> matchesPattern rnew rtest fp p = Inr (rtest x fp))
   \<and> (str_includes p ''*''
     \<and> RegExp_new (if str_includes p ''**'' then replace_star (replace_double_star p)
                    else replace_star p) = Inr r
     \<longrightarrow> matchesPattern RegExp_new RegExp_test fp p
           = Inr (\<exists>u v w. fp = u @ v @ w \<and> match_all r v)
       \<and> filterFiles RegExp_new RegExp_test files (Some [p])
           = Inr (filter (\<lambda>f. \<not> (\<exists>u v w. path f = u @ v @ w \<and> match_all r v)) files))
   \<and> matchesPattern RegExp_new RegExp_test ''src/dist/bundle.js'' ''dist/**'' = Inr True
   \<and> matchesPattern RegExp_new RegExp_test (a @ ''Xenv'' @ b) ''*.env'' = Inr True"
proof -
  have engine: "str_includes p ''*''
     \<and> rnew (if str_includes p ''**'' then replace_star (replace_double_star p)
              else replace_star p) = Inr x
     \<longrightarrow> matchesPattern rnew rtest fp p = Inr (rtest x fp)"
    using matchesPattern_wildcard [of p rnew x rtest fp] by blast
  have general: "str_includes p ''*''
     \<and> RegExp_new (if str_includes p ''**'' then replace_star (replace_double_star p)
                    else replace_star p) = Inr r
     \<longrightarrow> matchesPattern RegExp_new RegExp_test fp p
           = Inr (\<exists>u v w. fp = u @ v @ w \<and> match_all r v)
       \<and> filterFiles RegExp_new RegExp_test files (Some [p])
           = Inr (filter (\<lambda>f. \<not> (\<exists>u v w. path f = u @ v @ w \<and> match_all r v)) files)"
  proof (intro impI, elim conjE)
    assume p: "str_includes p ''*''"
      and r: "RegExp_new (if str_includes p ''**'' then replace_star (replace_double_star p)
                    else replace_star p) = Inr r"
    have m: "\<And>x. matchesPattern RegExp_new RegExp_test x p
           = Inr (\<exists>u v w. x = u @ v @ w \<and> match_all r v)"
      using matchesPattern_wildcard [of p RegExp_new r RegExp_test, OF p r]
      by (simp add: RegExp_test_substring)
    have "\<forall>f\<in>set files. \<forall>q\<in>set [p]. \<exists>b. matchesPattern RegExp_new RegExp_test (path f) q = Inr b"
      using m by simp
    then have "filter_excluded RegExp_new RegExp_test [p] files =
       Inr (filter (\<lambda>f. \<not> (\<exists>q\<in>set [p]. matchesPattern RegExp_new RegExp_test (path f) q = Inr True)) files)"
      by (rule filter_excluded_total)
    then have "filterFiles RegExp_new RegExp_test files (Some [p])
           = Inr (filter (\<lambda>f. \<not> (\<exists>u v w. path f = u @ v @ w \<and> match_all r v)) files)"
      by (simp add: filterFiles_def m)
    with m show "matchesPattern RegExp_new RegExp_test fp p
           = Inr (\<exists>u v w. fp = u @ v @ w \<and> match_all r v)
       \<and> filterFiles RegExp_new RegExp_test files (Some [p])
           = Inr (filter (\<lambda>f. \<not> (\<exists>u v w. path f = u @ v @ w \<and> match_all r v)) files)"
      by simp
  qed
  have dist: "matchesPattern RegExp_new RegExp_test ''src/dist/bundle.js'' ''dist/**'' = Inr True"
    by code_simp
  have env: "matchesPattern RegExp_new RegExp_test (a @ ''Xenv'' @ b) ''*.env'' = Inr True"
  proof -
    let ?r = "[Star (Class True ''/''), Once Dot, Once (Lit CHR ''e''), Once (Lit CHR ''n''),
               Once (Lit CHR ''v'')]"
    have i: "str_includes ''*.env'' ''*''" by code_simp
    have n: "\<not> str_includes ''*.env'' ''**''" by code_simp
    have c: "RegExp_new (replace_star ''*.env'') = Inr ?r" by code_simp
    have "match_all ?r ''Xenv''" by code_simp
    then have "RegExp_test ?r (a @ ''Xenv'' @ b)"
      unfolding RegExp_test_substring by blast
    with i n c show ?thesis by (simp add: matchesPattern_def)
  qed
  show ?thesis using engine general dist env by blast
qed

theorem matchesPattern_unanchored_witness:
  "str_includes ''dist/**'' ''*''
   \<and> RegExp_new (if str_includes ''dist/**'' ''**'' then replace_star (replace_double_star ''dist/**'')
                  else replace_star ''dist/**'')
       = Inr [Once (Lit CHR ''d''), Once (Lit CHR ''i''), Once (Lit CHR ''s''), Once (Lit CHR ''t''),
              Once (Lit CHR ''/''), Once Dot, Star (Class True ''/'')]
   \<and> matchesPattern RegExp_new RegExp_test ''src/dist/bundle.js'' ''dist/**'' = Inr True
   \<and> (\<exists>u v w. ''src/dist/bundle.js'' = u @ v @ w
          \<and> match_all [Once (Lit CHR ''d''), Once (Lit CHR ''i''), Once (Lit CHR ''s''),
                        Once (Lit CHR ''t''), Once (Lit CHR ''/''), Once Dot, Star (Class True ''/'')] v)"
proof -
  let ?r = "[Once (Lit CHR ''d''), Once (Lit CHR ''i''), Once (Lit CHR ''s''), Once (Lit CHR ''t''),
              Once (Lit CHR ''/''), Once Dot, Star (Class True ''/'')]"
  have i: "str_includes ''dist/**'' ''*''" by code_simp
  have c: "RegExp_new (if str_includes ''dist/**'' ''**'' then replace_star (replace_double_star ''dist/**'')
                  else replace_star ''dist/**'') = Inr ?r" by code_simp
  have e: "matchesPattern RegExp_new RegExp_test ''src/dist/bundle.js'' ''dist/**'' = Inr True"
    by code_simp
  from matchesPattern_unanchored
    [of "''dist/**''" RegExp_new ?r RegExp_test "''src/dist/bundle.js''" ?r "[]" "[]" "[]",
      THEN conjunct2, THEN conjunct1] i c
  have "matchesPattern RegExp_new RegExp_test ''src/dist/bundle.js'' ''dist/**''
      = Inr (\<exists>u v w. ''src/dist/bundle.js'' = u @ v @ w \<and> match_all ?r v)"
    by blast
  with e have "\<exists>u v w. ''src/dist/bundle.js'' = u @ v @ w \<and> match_all ?r v" by simp
  with i c e show ?thesis by blast
qed

section \<open>What a call of extractHunksWithContext leaves unchanged\<close>

lemma alloc_prefix: "prefix h0 h \<Longrightarrow> prefix h0 (fst (alloc h c))"
  by (auto simp: alloc_def prefix_def)

lemma assign_prefix: "prefix h0 h \<Longrightarrow> length h0 \<le> a \<Longrightarrow> prefix h0 (assign h a c)"
  by (auto simp: assign_def prefix_def list_update_append)

lemma view_callback_prefix:
  assumes "prefix h0 h"
  shows "prefix h0 (fst (view_callback c h r))"
proof -
  from assms have le: "length h0 \<le> length h" by (rule prefix_length_le)
  show ?thesis
    using assms le
    by (auto simp: view_callback_def Let_def alloc_def assign_def prefix_def list_update_append
        split: option.splits cell.splits)
qed

lemma map_views_prefix:
  "prefix h0 h \<Longrightarrow> length h0 \<le> res \<Longrightarrow> prefix h0 (fst (map_views c res refs h))"
proof (induction refs arbitrary: h)
  case Nil
  then show ?case by simp
next
  case (Cons r refs)
  have p1: "prefix h0 (fst (view_callback c h r))"
    using Cons.prems(1) by (rule view_callback_prefix)
  show ?case
  proof (cases "view_callback c h r")
    case (Pair h1 res1)
    with p1 have p: "prefix h0 h1" by simp
    show ?thesis
    proof (cases res1)
      case (Inl e)
      with Pair p show ?thesis by simp
    next
      case (Inr view)
      show ?thesis
      proof (cases "lookup h1 res")
        case None
        with Pair Inr p show ?thesis by simp
      next
        case (Some cl)
        show ?thesis
        proof (cases cl)
          case (Hunks_cell views)
          have "prefix h0 (assign h1 res (Hunks_cell (views @ [view])))"
            using p Cons.prems(2) by (rule assign_prefix)
          then have "prefix h0 (fst (map_views c res refs (assign h1 res (Hunks_cell (views @ [view])))))"
            using Cons.prems(2) by (rule Cons.IH)
          with Pair Inr Some Hunks_cell show ?thesis by simp
        qed (use Pair Inr Some p in simp_all)
      qed
    qed
  qed
qed

lemma extractHunksWithContext_store_prefix:
  "prefix h (fst (extractHunksWithContext_store h fd c))"
proof (cases fd)
  case None
  then show ?thesis
    by (simp add: extractHunksWithContext_store_def alloc_def)
next
  case (Some a)
  have "\<And>refs k. prefix h (fst (map_views k (length h) refs (h @ [Hunks_cell []])))"
    by (rule map_views_prefix) simp_all
  with Some show ?thesis
    by (auto simp: extractHunksWithContext_store_def alloc_def Let_def
        split: option.splits cell.splits)
qed

lemma lookup_prefix: "prefix h h' \<Longrightarrow> lookup h a = Some c \<Longrightarrow> lookup h' a = Some c"
  by (auto simp: lookup_def prefix_def nth_append split: if_splits)

lemma hunk_at_prefix:
  assumes "prefix h h'" and "hunk_at h r = Some v"
  shows "hunk_at h' r = Some v"
proof -
  from assms(2) obtain hunk ls where a: "lookup h r = Some (Hunk_cell hunk)"
    and b: "lookup h (lines hunk) = Some (Lines_cell ls)" and v: "v = hunk_value hunk ls"
    by (auto simp: hunk_at_def split: option.splits cell.splits)
  from assms(1) a have "lookup h' r = Some (Hunk_cell hunk)" by (rule lookup_prefix)
  moreover from assms(1) b have "lookup h' (lines hunk) = Some (Lines_cell ls)"
    by (rule lookup_prefix)
  ultimately show ?thesis using v by (simp add: hunk_at_def)
qed

lemma hunks_of_refs_prefix:
  "prefix h h' \<Longrightarrow> hunks_of_refs h refs = Some vs \<Longrightarrow> hunks_of_refs h' refs = Some vs"
proof (induction refs arbitrary: vs)
  case Nil
  then show ?case by simp
next
  case (Cons r refs)
  from Cons.prems(2) obtain v ws where v: "hunk_at h r = Some v"
    and ws: "hunks_of_refs h refs = Some ws" and vs: "vs = v # ws"
    by (auto split: option.splits)
  from Cons.prems(1) v have "hunk_at h' r = Some v" by (rule hunk_at_prefix)
  moreover from Cons.prems(1) ws have "hunks_of_refs h' refs = Some ws" by (rule Cons.IH)
  ultimately show ?case using vs by simp
qed

lemma hunks_at_prefix:
  assumes "prefix h h'" and "hunks_at h a = Some vs"
  shows "hunks_at h' a = Some vs"
proof -
  from assms(2) obtain refs where a: "lookup h a = Some (Hunks_cell refs)"
    and b: "hunks_of_refs h refs = Some vs"
    by (auto simp: hunks_at_def split: option.splits cell.splits)
  from assms(1) a have "lookup h' a = Some (Hunks_cell refs)" by (rule lookup_prefix)
  moreover from assms(1) b have "hunks_of_refs h' refs = Some vs" by (rule hunks_of_refs_prefix)
  ultimately show ?thesis by (simp add: hunks_at_def)
qed

lemma fileDiff_at_prefix:
  assumes "prefix h h'" and "fileDiff_at h a = Some F"
  shows "fileDiff_at h' a = Some F"
proof -
  from assms(2) obtain fd hs where a: "lookup h a = Some (FileDiff_cell fd)"
    and b: "hunks_at h (hunks fd) = Some hs" and F: "F = fileDiff_value fd hs"
    by (auto simp: fileDiff_at_def split: option.splits cell.splits)
  from assms(1) a have "lookup h' a = Some (FileDiff_cell fd)" by (rule lookup_prefix)
  moreover from assms(1) b have "hunks_at h' (hunks fd) = Some hs" by (rule hunks_at_prefix)
  ultimately show ?thesis using F by (simp add: fileDiff_at_def)
qed

lemma lookup_assign_other: "a \<noteq> b \<Longrightarrow> lookup (assign h b c) a = lookup h a"
  by (simp add: lookup_def assign_def)

lemma lookup_assign_same: "lookup h b = Some c0 \<Longrightarrow> lookup (assign h b c) b = Some c"
  by (simp add: lookup_def assign_def split: if_splits)

lemma hunk_at_assign:
  assumes "lookup h res = Some (Hunks_cell ws)" and "hunk_at h r = Some v"
  shows "hunk_at (assign h res (Hunks_cell ws')) r = Some v"
proof -
  from assms(2) obtain hunk ls where a: "lookup h r = Some (Hunk_cell hunk)"
    and b: "lookup h (lines hunk) = Some (Lines_cell ls)" and v: "v = hunk_value hunk ls"
    by (auto simp: hunk_at_def split: option.splits cell.splits)
  from a assms(1) have "r \<noteq> res" by auto
  moreover from b assms(1) have "lines hunk \<noteq> res" by auto
  ultimately show ?thesis using a b v by (simp add: hunk_at_def lookup_assign_other)
qed

lemma hunks_of_refs_assign:
  "lookup h res = Some (Hunks_cell ws) \<Longrightarrow> hunks_of_refs h refs = Some vs \<Longrightarrow>
   hunks_of_refs (assign h res (Hunks_cell ws')) refs = Some vs"
proof (induction refs arbitrary: vs)
  case Nil
  then show ?case by simp
next
  case (Cons r refs)
  from Cons.prems(2) obtain v us where v: "hunk_at h r = Some v"
    and us: "hunks_of_refs h refs = Some us" and vs: "vs = v # us"
    by (auto split: option.splits)
  from Cons.prems(1) v have "hunk_at (assign h res (Hunks_cell ws')) r = Some v"
    by (rule hunk_at_assign)
  moreover from Cons.prems(1) us have "hunks_of_refs (assign h res (Hunks_cell ws')) refs = Some us"
    by (rule Cons.IH)
  ultimately show ?case using vs by simp
qed

lemma hunks_of_refs_snoc:
  "hunks_of_refs h refs = Some vs \<Longrightarrow> hunk_at h r = Some v \<Longrightarrow>
   hunks_of_refs h (refs @ [r]) = Some (vs @ [v])"
  by (induction refs arbitrary: vs) (auto split: option.splits)

lemma view_callback_value:
  assumes "hunk_at h r = Some v"
  shows "\<exists>h'. view_callback c h r = (h', Inr (length h)) \<and> prefix h h'
           \<and> hunk_at h' (length h) = Some (hunk_view c v)"
proof -
  from assms obtain hunk ls where a: "lookup h r = Some (Hunk_cell hunk)"
    and b: "lookup h (lines hunk) = Some (Lines_cell ls)" and v: "v = hunk_value hunk ls"
    by (auto simp: hunk_at_def split: option.splits cell.splits)
  let ?sl = "slice ls (max 0 (0 - c)) (min (int (length ls)) (int (length ls) + c))"
  let ?obj = "Hunk_cell (hunk \<lparr> lines := Suc (length h), content := join_lines ?sl \<rparr>)"
  let ?h' = "h @ [?obj, Lines_cell ?sl, Lines_cell ?sl]"
  have run: "view_callback c h r = (?h', Inr (length h))"
    using a b by (simp add: view_callback_def Let_def alloc_def assign_def list_update_append)
  have "hunk_at ?h' (length h) = Some (hunk_view c v)"
    by (simp add: hunk_at_def lookup_def nth_append hunk_value_def hunk_view_def Let_def v)
  with run show ?thesis by (auto simp: prefix_def)
qed

lemma map_views_value:
  assumes "hunks_of_refs h refs = Some vs" and "lookup h res = Some (Hunks_cell views)"
    and "hunks_of_refs h views = Some seen"
  shows "\<exists>h'. map_views c res refs h = (h', Inr res)
           \<and> hunks_at h' res = Some (seen @ map (hunk_view c) vs)"
  using assms
proof (induction refs arbitrary: h vs views seen)
  case Nil
  then show ?case by (simp add: hunks_at_def)
next
  case (Cons r refs)
  from Cons.prems(1) obtain v us where v: "hunk_at h r = Some v"
    and us: "hunks_of_refs h refs = Some us" and vs: "vs = v # us"
    by (auto split: option.splits)
  from view_callback_value [OF v, of c] obtain h1 where
    run: "view_callback c h r = (h1, Inr (length h))" and p: "prefix h h1"
    and view: "hunk_at h1 (length h) = Some (hunk_view c v)"
    by blast
  from p Cons.prems(2) have res1: "lookup h1 res = Some (Hunks_cell views)"
    by (rule lookup_prefix)
  let ?h2 = "assign h1 res (Hunks_cell (views @ [length h]))"
  from p us have "hunks_of_refs h1 refs = Some us" by (rule hunks_of_refs_prefix)
  with res1 have a: "hunks_of_refs ?h2 refs = Some us" by (rule hunks_of_refs_assign)
  from res1 have b: "lookup ?h2 res = Some (Hunks_cell (views @ [length h]))"
    by (rule lookup_assign_same)
  from p Cons.prems(3) have "hunks_of_refs h1 views = Some seen" by (rule hunks_of_refs_prefix)
  then have "hunks_of_refs h1 (views @ [length h]) = Some (seen @ [hunk_view c v])"
    using view by (rule hunks_of_refs_snoc)
  with res1 have d: "hunks_of_refs ?h2 (views @ [length h]) = Some (seen @ [hunk_view c v])"
    by (rule hunks_of_refs_assign)
  from Cons.IH [OF a b d] obtain h' where
    "map_views c res refs ?h2 = (h', Inr res)"
    "hunks_at h' res = Some ((seen @ [hunk_view c v]) @ map (hunk_view c) us)"
    by blast
  with run res1 vs show ?case by simp
qed

lemma extractHunksWithContext_store_value:
  assumes "fileDiff_at h a = Some F"
  shows "\<exists>h'. extractHunksWithContext_store h (Some a) c = (h', Inr (length h))
           \<and> hunks_at h' (length h) = Some (extractHunksWithContext (Some F) c)"
proof -
  from assms obtain fd hs where a: "lookup h a = Some (FileDiff_cell fd)"
    and b: "hunks_at h (hunks fd) = Some hs" and F: "F = fileDiff_value fd hs"
    by (auto simp: fileDiff_at_def split: option.splits cell.splits)
  from b obtain refs where r: "lookup h (hunks fd) = Some (Hunks_cell refs)"
    and hs: "hunks_of_refs h refs = Some hs"
    by (auto simp: hunks_at_def split: option.splits cell.splits)
  let ?k = "case c of None \<Rightarrow> 60 | Some k \<Rightarrow> k"
  let ?h1 = "h @ [Hunks_cell []]"
  have p: "prefix h ?h1" by simp
  from p hs have 1: "hunks_of_refs ?h1 refs = Some hs" by (rule hunks_of_refs_prefix)
  have 2: "lookup ?h1 (length h) = Some (Hunks_cell [])" by (simp add: lookup_def)
  have 3: "hunks_of_refs ?h1 [] = Some []" by simp
  from map_views_value [OF 1 2 3, of ?k] obtain h' where
    "map_views ?k (length h) refs ?h1 = (h', Inr (length h))"
    "hunks_at h' (length h) = Some (map (hunk_view ?k) hs)"
    by auto
  with a r F show ?thesis
    by (simp add: extractHunksWithContext_store_def extractHunksWithContext_def alloc_def
        fileDiff_value_def Let_def)
qed

text \<open>
  Claim C9. A call of \<open>extractHunksWithContext\<close> only adds cells to the store: every
  cell that existed before the call is the same after it, whatever the argument and the
  budget, also when the call fails. So a FileDiff read from address \<open>a\<close> before the
  call, with its hunks and their lines, content, counts and header fields, reads the
  same after the call on it; the call returns a new array, and the views in it are
  those the function computes on values.
\<close>

theorem extractHunksWithContext_store_frame:
  "take (length h) (fst (extractHunksWithContext_store h fd c)) = h
   \<and> (fileDiff_at h a = Some F \<longrightarrow>
        fileDiff_at (fst (extractHunksWithContext_store h (Some a) c)) a = Some F
        \<and> snd (extractHunksWithContext_store h (Some a) c) = Inr (length h)
        \<and> hunks_at (fst (extractHunksWithContext_store h (Some a) c)) (length h)
            = Some (extractHunksWithContext (Some F) c))"
proof -
  have "prefix h (fst (extractHunksWithContext_store h fd c))"
    by (rule extractHunksWithContext_store_prefix)
  then have frame: "take (length h) (fst (extractHunksWithContext_store h fd c)) = h"
    by (auto simp: prefix_def)
  have "fileDiff_at h a = Some F \<longrightarrow>
        fileDiff_at (fst (extractHunksWithContext_store h (Some a) c)) a = Some F
        \<and> snd (extractHunksWithContext_store h (Some a) c) = Inr (length h)
        \<and> hunks_at (fst (extractHunksWithContext_store h (Some a) c)) (length h)
            = Some (extractHunksWithContext (Some F) c)"
  proof
    assume F: "fileDiff_at h a = Some F"
    have "prefix h (fst (extractHunksWithContext_store h (Some a) c))"
      by (rule extractHunksWithContext_store_prefix)
    then have "fileDiff_at (fst (extractHunksWithContext_store h (Some a) c)) a = Some F"
      using F by (rule fileDiff_at_prefix)
    moreover from extractHunksWithContext_store_value [OF F, of c] obtain h' where
      "extractHunksWithContext_store h (Some a) c = (h', Inr (length h))"
      "hunks_at h' (length h) = Some (extractHunksWithContext (Some F) c)"
      by blast
    ultimately show "fileDiff_at (fst (extractHunksWithContext_store h (Some a) c)) a = Some F
        \<and> snd (extractHunksWithContext_store h (Some a) c) = Inr (length h)
        \<and> hunks_at (fst (extractHunksWithContext_store h (Some a) c)) (length h)
            = Some (extractHunksWithContext (Some F) c)"
      by simp
  qed
  with frame show ?thesis by simp
qed

theorem extractHunksWithContext_store_frame_witness:
  "fileDiff_at
     [Lines_cell [''-old line 1'', ''+new line 1'', '' context line''],
      Hunk_cell (hunk_value (hunk_of 1 1 1 2 [''-old line 1'', ''+new line 1'', '' context line'']) 0),
      Hunks_cell [1],
      FileDiff_cell (fileDiff_value (file_at ''a.js'') 2)] 3
    = Some ((file_at ''a.js'')
        \<lparr> hunks := [hunk_of 1 1 1 2 [''-old line 1'', ''+new line 1'', '' context line'']] \<rparr>)
   \<and> fileDiff_at
       (fst (extractHunksWithContext_store
         [Lines_cell [''-old line 1'', ''+new line 1'', '' context line''],
          Hunk_cell (hunk_value (hunk_of 1 1 1 2 [''-old line 1'', ''+new line 1'', '' context line'']) 0),
          Hunks_cell [1],
          FileDiff_cell (fileDiff_value (file_at ''a.js'') 2)] (Some 3) (Some 1))) 3
    = Some ((file_at ''a.js'')
        \<lparr> hunks := [hunk_of 1 1 1 2 [''-old line 1'', ''+new line 1'', '' context line'']] \<rparr>)
   \<and> snd (extractHunksWithContext_store
         [Lines_cell [''-old line 1'', ''+new line 1'', '' context line''],
          Hunk_cell (hunk_value (hunk_of 1 1 1 2 [''-old line 1'', ''+new line 1'', '' context line'']) 0),
          Hunks_cell [1],
          FileDiff_cell (fileDiff_value (file_at ''a.js'') 2)] (Some 3) (Some 1))
    = Inr 4"
proof -
  let ?h = "[Lines_cell [''-old line 1'', ''+new line 1'', '' context line''],
      Hunk_cell (hunk_value (hunk_of 1 1 1 2 [''-old line 1'', ''+new line 1'', '' context line'']) 0),
      Hunks_cell [1],
      FileDiff_cell (fileDiff_value (file_at ''a.js'') 2)]"
  let ?F = "(file_at ''a.js'')
        \<lparr> hunks := [hunk_of 1 1 1 2 [''-old line 1'', ''+new line 1'', '' context line'']] \<rparr>"
  have F: "fileDiff_at ?h 3 = Some ?F"
    by code_simp
  have len: "length ?h = 4" by simp
  from extractHunksWithContext_store_frame [of ?h "Some 3" "Some 1" 3 ?F, THEN conjunct2] F
  have "fileDiff_at (fst (extractHunksWithContext_store ?h (Some 3) (Some 1))) 3 = Some ?F
        \<and> snd (extractHunksWithContext_store ?h (Some 3) (Some 1)) = Inr (length ?h)"
    by blast
  with F len show ?thesis by simp
qed

end
